theory Spec2Isabelle
  imports Complex_Main "HOL-Library.Word"
begin

section \<open>Strings of the page script\<close>

text \<open>
  The script is TypeScript; its strings are sequences of code units. They are modelled as
  \<^typ>\<open>string\<close>, one \<^typ>\<open>char\<close> per code unit, which covers the code units
  \<open>0x00\<close> to \<open>0xFF\<close> (the engine's format listing is plain ASCII). Within that range
  the white space of \<open>String.prototype.trim\<close> and of the regular expression class
  \<open>\s\<close> is TAB, LF, VT, FF, CR, SPACE and NBSP, and the line terminators that
  \<open>.\<close> refuses are LF and CR.
\<close>

definition isWhiteSpace :: "char \<Rightarrow> bool" where
  "isWhiteSpace c =
     (c = CHR 0x09 \<or> c = CHR 0x0A \<or> c = CHR 0x0B \<or> c = CHR 0x0C \<or> c = CHR 0x0D
      \<or> c = CHR 0x20 \<or> c = CHR 0xA0)"

definition isLineTerminator :: "char \<Rightarrow> bool" where
  "isLineTerminator c = (c = CHR 0x0A \<or> c = CHR 0x0D)"

text \<open>\<open>s.trim()\<close>: white space removed at both ends.\<close>

definition trim :: "string \<Rightarrow> string" where
  "trim s = rev (dropWhile isWhiteSpace (rev (dropWhile isWhiteSpace s)))"

text \<open>\<open>s.startsWith(p)\<close> and \<open>s.endsWith(p)\<close>.\<close>

fun startsWith :: "string \<Rightarrow> string \<Rightarrow> bool" where
  "startsWith s [] = True"
| "startsWith [] (p # ps) = False"
| "startsWith (c # cs) (p # ps) = (c = p \<and> startsWith cs ps)"

definition endsWith :: "string \<Rightarrow> string \<Rightarrow> bool" where
  "endsWith s p = (length p \<le> length s \<and> drop (length s - length p) s = p)"

text \<open>\<open>s.includes(p)\<close> (named includesStr here): \<open>p\<close> occurs somewhere in \<open>s\<close>.\<close>

fun includesStr :: "string \<Rightarrow> string \<Rightarrow> bool" where
  "includesStr [] p = (p = [])"
| "includesStr (c # cs) p = (startsWith (c # cs) p \<or> includesStr cs p)"

text \<open>
  \<open>s.split(".")\<close> with a separator of one code unit: the pieces between the
  separators, never an empty array (\<open>"".split(".")\<close> is \<open>[""]\<close>).
\<close>

fun split :: "char \<Rightarrow> string \<Rightarrow> string list" where
  "split sep [] = [[]]"
| "split sep (c # cs) =
     (if c = sep then [] # split sep cs
      else (case split sep cs of
              [] \<Rightarrow> [[c]]
            | piece # pieces \<Rightarrow> (c # piece) # pieces))"

text \<open>\<open>xs.pop()\<close> as the script uses it: the last element, \<open>undefined\<close> on an empty array.\<close>

definition pop :: "'a list \<Rightarrow> 'a option" where
  "pop xs = (if xs = [] then None else Some (last xs))"

section \<open>Numbers\<close>

text \<open>
  A \<open>number\<close> of the script is an IEEE 754 double: not-a-number, an infinity with its
  sign, or a finite value. \<open>Finite s m e\<close> is \<open>m * 2 ^ e\<close>, negative when \<open>s\<close>
  holds, kept canonical (\<open>m\<close> odd, or \<open>m = 0\<close> with \<open>e = 0\<close>) so that two
  finite numbers are equal exactly when the doubles are; a double has \<open>m < 2 ^ 53\<close>,
  \<open>e \<ge> -1074\<close> and a magnitude below \<open>2 ^ 1024\<close>.
\<close>

datatype number = NaN | Infinity bool | Finite bool nat int

fun bitLength :: "nat \<Rightarrow> nat" where
  "bitLength n = (if n = 0 then 0 else Suc (bitLength (n div 2)))"

fun canonical :: "nat \<Rightarrow> int \<Rightarrow> nat \<times> int" where
  "canonical m e =
     (if m = 0 then (0, 0)
      else if even m then canonical (m div 2) (e + 1)
      else (m, e))"

declare bitLength.simps [simp del]

declare canonical.simps [simp del]

text \<open>\<open>m / 2 ^ k\<close> rounded to the nearest integer, a tie going to the even one.\<close>

definition roundHalfEven :: "nat \<Rightarrow> nat \<Rightarrow> nat" where
  "roundHalfEven m k =
     (let q = m div 2 ^ k; r = m mod 2 ^ k
      in if 2 * r < 2 ^ k then q
         else if 2 ^ k < 2 * r then q + 1
         else if even q then q else q + 1)"

text \<open>
  The double nearest to the exact value \<open>m * 2 ^ e\<close> with sign \<open>s\<close> (round to nearest,
  ties to even): the value keeps 53 significant bits and no bit below \<open>2 ^ -1074\<close>, and
  becomes an infinity when the rounded magnitude reaches \<open>2 ^ 1024\<close>.
\<close>

definition toNumber :: "bool \<Rightarrow> nat \<Rightarrow> int \<Rightarrow> number" where
  "toNumber s m e =
     (let k = max (int (bitLength m) - 53) (max (- 1074 - e) 0);
          (m', e') = canonical (roundHalfEven m (nat k)) (e + k)
      in if int (bitLength m') + e' > 1024 then Infinity s else Finite s m' e')"

text \<open>The operator \<open>*\<close> on numbers.\<close>

fun mult :: "number \<Rightarrow> number \<Rightarrow> number" where
  "mult NaN y = NaN"
| "mult x NaN = NaN"
| "mult (Infinity s) (Infinity t) = Infinity (s \<noteq> t)"
| "mult (Infinity s) (Finite t n f) = (if n = 0 then NaN else Infinity (s \<noteq> t))"
| "mult (Finite s m e) (Infinity t) = (if m = 0 then NaN else Infinity (s \<noteq> t))"
| "mult (Finite s m e) (Finite t n f) = toNumber (s \<noteq> t) (m * n) (e + f)"

text \<open>A literal that is a natural number, such as \<open>0\<close> and \<open>100\<close>.\<close>

definition numberOf :: "nat \<Rightarrow> number" where
  "numberOf n = toNumber False n 0"

section \<open>Regular expressions with backtracking\<close>

text \<open>
  The fragment of regular expressions that \<open>formatLineRegex\<close> is written in. A matcher
  state is the list of captured groups so far and the input still to be read; \<open>rmatch\<close>
  returns every way to match, in the order in which a backtracking matcher tries them
  (the left alternative first, the longest repetition first), so the head of the list is
  the match that the engine reports.
\<close>

datatype cclass = Space | NonSpace | Dot

fun inClass :: "cclass \<Rightarrow> char \<Rightarrow> bool" where
  "inClass Space c = isWhiteSpace c"
| "inClass NonSpace c = (\<not> isWhiteSpace c)"
| "inClass Dot c = (\<not> isLineTerminator c)"

datatype regex =
    Lit string
  | Alt regex regex
  | Seq regex regex
  | Plus cclass
  | Group regex
  | EndOfInput

type_synonym mstate = "string list \<times> string"

fun rmatch :: "regex \<Rightarrow> mstate \<Rightarrow> mstate list" where
  "rmatch (Lit p) (caps, s) = (if startsWith s p then [(caps, drop (length p) s)] else [])"
| "rmatch (Alt a b) m = rmatch a m @ rmatch b m"
| "rmatch (Seq a b) m = concat (map (rmatch b) (rmatch a m))"
| "rmatch (Plus cl) (caps, s) =
     map (\<lambda>k. (caps, drop k s)) (rev [1 ..< Suc (length (takeWhile (inClass cl) s))])"
| "rmatch (Group a) (caps, s) =
     map (\<lambda>(caps', s'). (caps' @ [take (length s - length s') s], s')) (rmatch a (caps, s))"
| "rmatch EndOfInput (caps, s) = (if s = [] then [(caps, s)] else [])"

text \<open>
  \<open>s.match(r)\<close> for a regular expression that starts with \<open>^\<close> and has no flags:
  only a match at index 0 can succeed. The result is the array of the whole match followed
  by the groups, or \<open>null\<close>. \<open>r.test(s)\<close> says whether there is one; without the
  \<open>g\<close> flag it keeps no position between calls.
\<close>

definition match :: "string \<Rightarrow> regex \<Rightarrow> string list option" where
  "match s r =
     (case rmatch r ([], s) of
        [] \<Rightarrow> None
      | (caps, rest) # _ \<Rightarrow> Some (take (length s - length rest) s # caps))"

definition test :: "regex \<Rightarrow> string \<Rightarrow> bool" where
  "test r s = (match s r \<noteq> None)"

section \<open>The capability parser\<close>

record Format =
  demuxingSupported :: bool
  muxingSupported :: bool
  "abbreviation" :: string
  name :: string

datatype exn = TypeError | EngineFailure | FileFailure

text \<open>
  \<open>/^(D|DE|E)\s+(\S+)\s+(.+)$/\<close>. The anchor \<open>^\<close> is the start at index 0
  that \<open>match\<close> imposes; \<open>$\<close> is \<open>EndOfInput\<close>.
\<close>

definition formatLineRegex :: regex where
  "formatLineRegex =
     Seq (Group (Alt (Lit ''D'') (Alt (Lit ''DE'') (Lit ''E''))))
    (Seq (Plus Space)
    (Seq (Group (Plus NonSpace))
    (Seq (Plus Space)
    (Seq (Group (Plus Dot))
         EndOfInput))))"

text \<open>
  The body of the loop of \<open>getFormatsFromLog\<close> for one line: \<open>Inr None\<close> is
  \<open>continue\<close>, \<open>Inr (Some f)\<close> is the descriptor pushed. The destructuring
  \<open>const [, support, abbreviation, name] = match\<close> expects the whole match and the three
  groups; were a group missing, its name would be \<open>undefined\<close> and
  \<open>support.includes\<close> would throw a TypeError.
\<close>

definition formatOfLine :: "string \<Rightarrow> exn + Format option" where
  "formatOfLine line =
     (let trimmedLine = trim line in
      if \<not> test formatLineRegex trimmedLine then Inr None
      else (case match trimmedLine formatLineRegex of
              None \<Rightarrow> Inr None
            | Some m \<Rightarrow>
                (case m of
                   [whole, support', abbreviation', name'] \<Rightarrow>
                     Inr (Some \<lparr> demuxingSupported = includesStr support' ''D'',
                                 muxingSupported = includesStr support' ''E'',
                                 abbreviation = abbreviation',
                                 name = name' \<rparr>)
                 | _ \<Rightarrow> Inl TypeError)))"

fun getFormatsFromLog_loop :: "string list \<Rightarrow> Format list \<Rightarrow> exn + Format list" where
  "getFormatsFromLog_loop [] results = Inr results"
| "getFormatsFromLog_loop (line # logMessages) results =
     (case formatOfLine line of
        Inl e \<Rightarrow> Inl e
      | Inr None \<Rightarrow> getFormatsFromLog_loop logMessages results
      | Inr (Some f) \<Rightarrow> getFormatsFromLog_loop logMessages (results @ [f]))"

definition getFormatsFromLog :: "string list \<Rightarrow> exn + Format list" where
  "getFormatsFromLog logMessages = getFormatsFromLog_loop logMessages []"

section \<open>The media engine\<close>

text \<open>
  The engine (\<open>@ffmpeg/ffmpeg\<close>) is outside the repository: the page only calls it.
  It is a parameter of the model: a record of its four operations over an engine state
  \<open>'e\<close> that the page never inspects. Each operation is a promise, \<open>None\<close> when it
  rejects. \<open>exec\<close> resolves with the events it emitted while it ran, in order, and
  its exit code; events are taken to arrive during \<open>exec\<close> only.
\<close>

type_synonym bytes = "8 word list"

datatype event = ProgressEvent number | LogEvent string

record 'e FFmpeg =
  load :: "'e \<Rightarrow> 'e option"
  exec :: "string list \<Rightarrow> 'e \<Rightarrow> (event list \<times> int \<times> 'e) option"
  writeFile :: "string \<Rightarrow> bytes \<Rightarrow> 'e \<Rightarrow> 'e option"
  readFile :: "string \<Rightarrow> 'e \<Rightarrow> bytes option"

text \<open>A dropped \<open>File\<close>: its name, and its content (\<open>None\<close> when it cannot be read).\<close>

record File =
  name :: string
  arrayBuffer :: "bytes option"

section \<open>The page\<close>

datatype Status = Loading | Loaded | ConvertStart | ConvertDone | ConvertError

text \<open>
  The anchor that \<open>download\<close> creates and clicks: the bytes and MIME type of its blob and
  its \<open>download\<close> attribute.
\<close>

record Anchor =
  blobParts :: bytes
  blobType :: string
  downloadName :: string

text \<open>
  The reactive state of the page. \<open>progress\<close> is the tweened store, held as the number
  it was created with or last set to: the number displayed moves to it within the duration
  of the animation, and time is not modelled. \<open>downloads\<close> lists the anchors clicked
  so far.
\<close>

record page =
  status :: Status
  error :: string
  progress :: number
  formats :: "Format list"
  selectedOutputFormat :: string
  downloads :: "Anchor list"

definition initialPage :: page where
  "initialPage =
     \<lparr> status = Loading, error = '''', progress = numberOf 0, formats = [],
       selectedOutputFormat = '''', downloads = [] \<rparr>"

text \<open>
  The listeners: \<open>progress\<close> sets the store to a hundred times the sample; both
  \<open>log\<close> listeners leave the page alone (one prints, the other appends the message to
  the array \<open>loggedFormats\<close> of \<open>loadFFmpeg\<close>).
\<close>

fun handleEvent :: "event \<Rightarrow> page \<Rightarrow> page" where
  "handleEvent (ProgressEvent p) st = st\<lparr>progress := mult p (numberOf 100)\<rparr>"
| "handleEvent (LogEvent m) st = st"

text \<open>The page after each event of a list, in order.\<close>

fun handleEvents :: "event list \<Rightarrow> page \<Rightarrow> page list" where
  "handleEvents [] st = []"
| "handleEvents (ev # evs) st = handleEvent ev st # handleEvents evs (handleEvent ev st)"

fun loggedMessages :: "event list \<Rightarrow> string list" where
  "loggedMessages [] = []"
| "loggedMessages (LogEvent m # evs) = m # loggedMessages evs"
| "loggedMessages (ProgressEvent p # evs) = loggedMessages evs"

text \<open>
  An asynchronous function of the page returns the successive states of the page while it
  ran (the state after its first synchronous part, after each event that arrived while it
  awaited the engine, and at its end: the last element is the state it leaves), its result
  (\<open>Inl\<close> when its promise rejects) and the engine state. Each function is run on
  its own: no other handler of the page is interleaved with it.
\<close>

type_synonym ('e, 'a) run = "page list \<times> (exn + 'a) \<times> 'e"

definition loadFFmpeg :: "'e FFmpeg \<Rightarrow> 'e \<Rightarrow> page \<Rightarrow> ('e, unit) run" where
  "loadFFmpeg ffmpeg e st =
     (let st1 = st\<lparr>status := Loading\<rparr> in
      case load ffmpeg e of
        None \<Rightarrow> ([st1], Inl EngineFailure, e)
      | Some e1 \<Rightarrow>
          let st2 = st1\<lparr>status := Loaded\<rparr> in
          (case exec ffmpeg [''-formats''] e1 of
             None \<Rightarrow> ([st1, st2], Inl EngineFailure, e1)
           | Some (events, code, e2) \<Rightarrow>
               let during = handleEvents events st2;
                   st3 = last (st2 # during);
                   loggedFormats = loggedMessages events
               in (case getFormatsFromLog loggedFormats of
                     Inl x \<Rightarrow> ([st1, st2] @ during, Inl x, e2)
                   | Inr fs \<Rightarrow>
                       let st4 = st3\<lparr>formats := fs\<rparr>;
                           outputFormats = filter muxingSupported (formats st4);
                           st5 = (if length outputFormats > 0
                                  then st4\<lparr>selectedOutputFormat := abbreviation (outputFormats ! 0)\<rparr>
                                  else st4)
                       in ([st1, st2] @ during @ [st5], Inr (), e2))))"

text \<open>
  \<open>convertVideo\<close> returns the bytes read back, or \<open>undefined\<close> (\<open>None\<close>) after a
  non-zero exit code.
\<close>

definition convertVideo :: "File \<Rightarrow> 'e FFmpeg \<Rightarrow> 'e \<Rightarrow> page \<Rightarrow> ('e, bytes option) run" where
  "convertVideo video ffmpeg e st =
     (let st1 = st\<lparr>status := ConvertStart, error := ''''\<rparr> in
      case arrayBuffer video of
        None \<Rightarrow> ([st1], Inl FileFailure, e)
      | Some videoData \<Rightarrow>
          (case writeFile ffmpeg ''input.webm'' videoData e of
             None \<Rightarrow> ([st1], Inl EngineFailure, e)
           | Some e1 \<Rightarrow>
               (case exec ffmpeg [''-i'', ''input.webm'', ''output.'' @ selectedOutputFormat st1] e1 of
                  None \<Rightarrow> ([st1], Inl EngineFailure, e1)
                | Some (events, result, e2) \<Rightarrow>
                    let during = handleEvents events st1;
                        st2 = last (st1 # during)
                    in if result \<noteq> 0
                       then ([st1] @ during
                               @ [st2\<lparr>error := ''Failed to convert video'', status := ConvertError\<rparr>],
                             Inr None, e2)
                       else (case readFile ffmpeg ''output.mp4'' e2 of
                               None \<Rightarrow> ([st1] @ during, Inl EngineFailure, e2)
                             | Some data \<Rightarrow>
                                 ([st1] @ during @ [st2\<lparr>status := ConvertDone\<rparr>],
                                  Inr (Some data), e2)))))"

definition download :: "bytes \<Rightarrow> page \<Rightarrow> page" where
  "download data st =
     st\<lparr>downloads := downloads st
          @ [\<lparr> blobParts = data, blobType = ''video/mp4'', downloadName = ''output.mp4'' \<rparr>]\<rparr>"

text \<open>
  Two expressions of \<open>onDropped\<close>, named as its constants are:
  \<open>file.name.split(".").pop() || ""\<close>, and the search among the formats that can be
  demuxed, whose test \<open>file.name.endsWith(fileFormat)\<close> does not mention the format.
\<close>

definition fileFormat :: "File \<Rightarrow> string" where
  "fileFormat file =
     (case pop (split (CHR ''.'') (File.name file)) of
        None \<Rightarrow> ''''
      | Some ext \<Rightarrow> (if ext = '''' then '''' else ext))"

definition isFileFormatSupported :: "page \<Rightarrow> File \<Rightarrow> Format option" where
  "isFileFormatSupported st file =
     List.find (\<lambda>f. endsWith (File.name file) (fileFormat file))
       (filter demuxingSupported (formats st))"

text \<open>
  The drop handler; \<open>files\<close> is \<open>event.dataTransfer?.files || []\<close>. A
  \<open>Uint8Array\<close> is truthy even when empty, so \<open>!data\<close> holds for \<open>undefined\<close>
  only.
\<close>

definition onDropped :: "File list \<Rightarrow> 'e FFmpeg \<Rightarrow> 'e \<Rightarrow> page \<Rightarrow> ('e, unit) run" where
  "onDropped files ffmpeg e st =
     (if length files = 0 then ([st], Inr (), e)
      else if length files > 1 then ([st\<lparr>error := ''Only one file is allowed''\<rparr>], Inr (), e)
      else
        let file = files ! 0 in
        if fileFormat file = '''' \<or> isFileFormatSupported st file = None
        then ([st\<lparr>error := ''Data format '' @ fileFormat file @ '' not supported''\<rparr>], Inr (), e)
        else (case convertVideo file ffmpeg e st of
                (states, Inl x, e') \<Rightarrow> (states, Inl x, e')
              | (states, Inr None, e') \<Rightarrow> (states, Inr (), e')
              | (states, Inr (Some data), e') \<Rightarrow>
                  (states @ [download data (last states)], Inr (), e')))"

section \<open>Engines, pages and files for the examples\<close>

text \<open>
  An engine whose state is its virtual file system: a conversion copies the input file to
  the output name it was given, with the progress samples 0.5 and 1; \<open>-formats\<close>
  logs a listing.
\<close>

definition formatListing :: "string list" where
  "formatListing =
     [''File formats:'',
      '' D. = Demuxing supported'',
      '' .E = Muxing supported'',
      '' --'',
      '' D  asf             ASF (Advanced Streaming Format)'',
      '' DE mp4             MP4 (MPEG-4 Part 14)'',
      ''  E webm            WebM'']"

fun vfsExec :: "string list \<Rightarrow> (string \<rightharpoonup> bytes) \<Rightarrow> (event list \<times> int \<times> (string \<rightharpoonup> bytes)) option" where
  "vfsExec [opt, inp, out] fs =
     (case fs inp of
        None \<Rightarrow> Some ([], 1, fs)
      | Some b \<Rightarrow>
          Some ([ProgressEvent (Finite False 1 (- 1)), ProgressEvent (Finite False 1 0)], 0,
                fs(out \<mapsto> b)))"
| "vfsExec argv fs =
     (if argv = [''-formats''] then Some (map LogEvent formatListing, 0, fs)
      else Some ([], 1, fs))"

definition vfsEngine :: "(string \<rightharpoonup> bytes) FFmpeg" where
  "vfsEngine =
     \<lparr> load = (\<lambda>fs. Some fs),
       exec = vfsExec,
       writeFile = (\<lambda>n b fs. Some (fs(n \<mapsto> b))),
       readFile = (\<lambda>n fs. fs n) \<rparr>"

text \<open>
  An engine without state: every conversion ends with the given exit code, after the
  progress sample 1.
\<close>

definition exitEngine :: "int \<Rightarrow> unit FFmpeg" where
  "exitEngine code =
     \<lparr> load = (\<lambda>u. Some u),
       exec = (\<lambda>argv u. Some ([ProgressEvent (Finite False 1 0)], code, u)),
       writeFile = (\<lambda>n b u. Some u),
       readFile = (\<lambda>n u. Some [1, 2, 3]) \<rparr>"



text \<open>
  The page as the first engine leaves it after startup, two files to drop, and the page
  after a first conversion by the second engine.
\<close>

definition loadedPage :: page where
  "loadedPage =
     \<lparr> status = Loaded, error = '''', progress = numberOf 0,
       formats =
         [\<lparr> demuxingSupported = True, muxingSupported = False, abbreviation = ''asf'',
            name = ''ASF (Advanced Streaming Format)'' \<rparr>,
          \<lparr> demuxingSupported = True, muxingSupported = True, abbreviation = ''mp4'',
            name = ''MP4 (MPEG-4 Part 14)'' \<rparr>,
          \<lparr> demuxingSupported = False, muxingSupported = True, abbreviation = ''webm'',
            name = ''WebM'' \<rparr>],
       selectedOutputFormat = ''mp4'', downloads = [] \<rparr>"

definition clipMp4 :: File where
  "clipMp4 = \<lparr> File.name = ''clip.mp4'', arrayBuffer = Some [7, 8, 9] \<rparr>"

definition clipXyz :: File where
  "clipXyz = \<lparr> File.name = ''clip.xyz'', arrayBuffer = Some [7, 8, 9] \<rparr>"

definition afterFirstJob :: page where
  "afterFirstJob = last (fst (onDropped [clipMp4] (exitEngine 0) () loadedPage))"

text \<open>The page after a conversion that failed, and an engine that never loads.\<close>

definition failedPage :: page where
  "failedPage = last (fst (onDropped [clipMp4] (exitEngine 1) () loadedPage))"

definition deadEngine :: "unit FFmpeg" where
  "deadEngine =
     \<lparr> load = (\<lambda>u. None),
       exec = (\<lambda>argv u. None),
       writeFile = (\<lambda>n b u. None),
       readFile = (\<lambda>n u. None) \<rparr>"

section \<open>Notions of the specification\<close>

text \<open>
  The flags column of a listing line, in the specification's words: what the trimmed line
  starts with, up to the first white space.
\<close>

definition flagsOf :: "string \<Rightarrow> string" where
  "flagsOf line = takeWhile (\<lambda>c. \<not> isWhiteSpace c) (trim line)"

text \<open>
  The specification's test for a line that may be kept: its trimmed form starts with
  \<open>D\<close>, \<open>DE\<close> or \<open>E\<close> followed by white space.
\<close>

definition startsWithFlags :: "string \<Rightarrow> bool" where
  "startsWithFlags line =
     (\<exists>fl \<in> set [''D'', ''DE'', ''E''].
        startsWith (trim line) fl
        \<and> (case drop (length fl) (trim line) of [] \<Rightarrow> False | c # r \<Rightarrow> isWhiteSpace c))"


section \<open>The regular expression\<close>

lemma startsWith_append: "startsWith s p \<longleftrightarrow> (\<exists>r. s = p @ r)"
  by (induction s p rule: startsWith.induct) auto

lemma rmatch_Lit_mem:
  "(caps', s') \<in> set (rmatch (Lit p) (caps, s)) \<longleftrightarrow> caps' = caps \<and> s = p @ s'"
  by (auto simp: startsWith_append)

lemma rmatch_Alt_mem:
  "x \<in> set (rmatch (Alt a b) m) \<longleftrightarrow> x \<in> set (rmatch a m) \<or> x \<in> set (rmatch b m)"
  by simp

lemma rmatch_Group_mem:
  "(caps', s') \<in> set (rmatch (Group a) (caps, s)) \<longleftrightarrow>
     (\<exists>c. (c, s') \<in> set (rmatch a (caps, s)) \<and> caps' = c @ [take (length s - length s') s])"
  by (force simp: image_iff)

lemma rmatch_flags_mem:
  assumes "(caps', s') \<in> set (rmatch (Group (Alt (Lit ''D'') (Alt (Lit ''DE'') (Lit ''E'')))) (caps, s))"
  shows "\<exists>fl. fl \<in> {''D'', ''DE'', ''E''} \<and> s = fl @ s' \<and> caps' = caps @ [fl]"
proof -
  from assms obtain fl where "fl \<in> {''D'', ''DE'', ''E''}" "s = fl @ s'"
      "caps' = caps @ [take (length s - length s') s]"
    unfolding rmatch_Group_mem rmatch_Alt_mem rmatch_Lit_mem by blast
  then show ?thesis by auto
qed

lemma takeWhile_pos_hd: "0 < length (takeWhile P s) \<Longrightarrow> \<exists>c r. s = c # r \<and> P c"
  by (cases s) (auto split: if_splits)

lemma rmatch_Plus_mem:
  "(caps', s') \<in> set (rmatch (Plus cl) (caps, s)) \<longleftrightarrow>
     caps' = caps \<and> (\<exists>k. 1 \<le> k \<and> k \<le> length (takeWhile (inClass cl) s) \<and> s' = drop k s)"
  by (auto simp: image_iff)

lemma rmatch_Group_Plus_mem:
  assumes "(caps', s') \<in> set (rmatch (Group (Plus cl)) (caps, s))"
  shows "\<exists>k. 1 \<le> k \<and> k \<le> length (takeWhile (inClass cl) s) \<and> s' = drop k s \<and> caps' = caps @ [take k s]"
proof -
  from assms obtain k where k: "1 \<le> k" "k \<le> length (takeWhile (inClass cl) s)" "s' = drop k s"
     "caps' = caps @ [take (length s - length s') s]"
    unfolding rmatch_Group_mem rmatch_Plus_mem by blast
  moreover have "k \<le> length s" using k(2) length_takeWhile_le[of "inClass cl" s] by linarith
  ultimately show ?thesis by auto
qed

lemma rmatch_Seq_mem:
  "x \<in> set (rmatch (Seq a b) m) \<longleftrightarrow> (\<exists>m'. m' \<in> set (rmatch a m) \<and> x \<in> set (rmatch b m'))"
  by auto

lemma rmatch_EndOfInput_mem:
  "(caps', s') \<in> set (rmatch EndOfInput (caps, s)) \<longleftrightarrow> caps' = caps \<and> s = [] \<and> s' = []"
  by auto

lemma rmatch_formatLine:
  assumes "(caps, rest) \<in> set (rmatch formatLineRegex ([], t))"
  shows "\<exists>fl a n. caps = [fl, a, n] \<and> fl \<in> {''D'', ''DE'', ''E''}
           \<and> (\<exists>c r. t = fl @ c # r \<and> isWhiteSpace c)"
proof -
  from assms obtain m1 where
    1: "m1 \<in> set (rmatch (Group (Alt (Lit ''D'') (Alt (Lit ''DE'') (Lit ''E'')))) ([], t))" and
    r1: "(caps, rest) \<in> set (rmatch (Seq (Plus Space) (Seq (Group (Plus NonSpace))
            (Seq (Plus Space) (Seq (Group (Plus Dot)) EndOfInput)))) m1)"
    unfolding formatLineRegex_def rmatch_Seq_mem[of _ "Group _"] by blast
  from r1 obtain m2 where
    2: "m2 \<in> set (rmatch (Plus Space) m1)" and
    r2: "(caps, rest) \<in> set (rmatch (Seq (Group (Plus NonSpace))
            (Seq (Plus Space) (Seq (Group (Plus Dot)) EndOfInput))) m2)"
    unfolding rmatch_Seq_mem[of _ "Plus Space"] by blast
  from r2 obtain m3 where
    3: "m3 \<in> set (rmatch (Group (Plus NonSpace)) m2)" and
    r3: "(caps, rest) \<in> set (rmatch (Seq (Plus Space) (Seq (Group (Plus Dot)) EndOfInput)) m3)"
    unfolding rmatch_Seq_mem[of _ "Group (Plus NonSpace)"] by blast
  from r3 obtain m4 where
    4: "m4 \<in> set (rmatch (Plus Space) m3)" and
    r4: "(caps, rest) \<in> set (rmatch (Seq (Group (Plus Dot)) EndOfInput) m4)"
    unfolding rmatch_Seq_mem[of _ "Plus Space"] by blast
  from r4 obtain m5 where
    5: "m5 \<in> set (rmatch (Group (Plus Dot)) m4)" and
    6: "(caps, rest) \<in> set (rmatch EndOfInput m5)"
    unfolding rmatch_Seq_mem[of _ "Group (Plus Dot)"] by blast
  obtain c1 s1 where m1: "m1 = (c1, s1)" by (cases m1)
  obtain c2 s2 where m2: "m2 = (c2, s2)" by (cases m2)
  obtain c3 s3 where m3: "m3 = (c3, s3)" by (cases m3)
  obtain c4 s4 where m4: "m4 = (c4, s4)" by (cases m4)
  obtain c5 s5 where m5: "m5 = (c5, s5)" by (cases m5)
  from 1 m1 obtain fl where fl: "fl \<in> {''D'', ''DE'', ''E''}" "t = fl @ s1" "c1 = [fl]"
    using rmatch_flags_mem[of c1 s1 "[]" t] by auto
  from 2 have c2: "c2 = c1" and "0 < length (takeWhile (inClass Space) s1)"
    unfolding m1 m2 rmatch_Plus_mem by auto
  then obtain c r where s1: "s1 = c # r" "isWhiteSpace c"
    using takeWhile_pos_hd[of "inClass Space" s1] by auto
  from 3 obtain a where c3: "c3 = c2 @ [a]"
    unfolding m2 m3 using rmatch_Group_Plus_mem[of c3 s3 NonSpace c2 s2] by auto
  from 4 have c4: "c4 = c3" unfolding m3 m4 rmatch_Plus_mem by auto
  from 5 obtain n where c5: "c5 = c4 @ [n]"
    unfolding m4 m5 using rmatch_Group_Plus_mem[of c5 s5 Dot c4 s4] by auto
  from 6 have "caps = c5" unfolding m5 rmatch_EndOfInput_mem by auto
  with fl(1,3) c2 c3 c4 c5 have "caps = [fl, a, n]" by simp
  with fl(1,2) s1 show ?thesis by blast
qed

lemma match_formatLine:
  assumes "match t formatLineRegex = Some m"
  shows "\<exists>whole fl a n. m = [whole, fl, a, n] \<and> fl \<in> {''D'', ''DE'', ''E''}
           \<and> (\<exists>c r. t = fl @ c # r \<and> isWhiteSpace c)"
proof (cases "rmatch formatLineRegex ([], t)")
  case Nil
  with assms show ?thesis by (simp add: match_def)
next
  case (Cons x xs)
  obtain caps rest where x: "x = (caps, rest)" by (cases x)
  from Cons x have "(caps, rest) \<in> set (rmatch formatLineRegex ([], t))" by simp
  from rmatch_formatLine[OF this] obtain fl a n where
    "caps = [fl, a, n]" "fl \<in> {''D'', ''DE'', ''E''}" "\<exists>c r. t = fl @ c # r \<and> isWhiteSpace c"
    by blast
  moreover from assms Cons x have "m = take (length t - length rest) t # caps"
    by (simp add: match_def)
  ultimately show ?thesis by blast
qed

lemma formatOfLine_Some:
  assumes "formatOfLine line = Inr (Some f)"
  shows "\<exists>fl a n. fl \<in> {''D'', ''DE'', ''E''}
           \<and> (\<exists>c r. trim line = fl @ c # r \<and> isWhiteSpace c)
           \<and> f = \<lparr> demuxingSupported = includesStr fl ''D'', muxingSupported = includesStr fl ''E'',
                   abbreviation = a, name = n \<rparr>"
proof -
  from assms obtain m where m: "match (trim line) formatLineRegex = Some m"
    by (auto simp: formatOfLine_def Let_def test_def split: if_splits option.splits)
  from match_formatLine[OF m] obtain whole fl a n where
    mm: "m = [whole, fl, a, n]" and fl: "fl \<in> {''D'', ''DE'', ''E''}"
      "\<exists>c r. trim line = fl @ c # r \<and> isWhiteSpace c"
    by blast
  from assms m mm have "f = \<lparr> demuxingSupported = includesStr fl ''D'',
      muxingSupported = includesStr fl ''E'', abbreviation = a, name = n \<rparr>"
    by (simp add: formatOfLine_def Let_def test_def)
  with fl show ?thesis by blast
qed

lemma formatOfLine_not_Inl: "formatOfLine line \<noteq> Inl x"
proof (cases "match (trim line) formatLineRegex")
  case None
  then show ?thesis by (simp add: formatOfLine_def Let_def test_def)
next
  case (Some m)
  from match_formatLine[OF Some] obtain whole fl a n where "m = [whole, fl, a, n]" by blast
  with Some show ?thesis by (simp add: formatOfLine_def Let_def test_def)
qed

lemma formatOfLine_None_iff:
  "formatOfLine line = Inr None \<longleftrightarrow> \<not> test formatLineRegex (trim line)"
proof (cases "match (trim line) formatLineRegex")
  case None
  then show ?thesis by (simp add: formatOfLine_def Let_def test_def)
next
  case (Some m)
  from match_formatLine[OF Some] obtain whole fl a n where "m = [whole, fl, a, n]" by blast
  with Some show ?thesis by (simp add: formatOfLine_def Let_def test_def)
qed

lemma flags_not_space:
  "fl \<in> {''D'', ''DE'', ''E''} \<Longrightarrow> \<forall>x\<in>set fl. \<not> isWhiteSpace x"
  by (auto simp: isWhiteSpace_def)

lemma flags_takeWhile:
  assumes "fl \<in> {''D'', ''DE'', ''E''}" "isWhiteSpace c"
  shows "takeWhile (\<lambda>x. \<not> isWhiteSpace x) (fl @ c # r) = fl"
  using flags_not_space[OF assms(1)] assms(2) by (simp add: takeWhile_append2)

lemma flags_includes:
  "fl \<in> {''D'', ''DE'', ''E''} \<Longrightarrow>
     includesStr fl ''D'' = (CHR ''D'' \<in> set fl) \<and> includesStr fl ''E'' = (CHR ''E'' \<in> set fl)"
  by auto

lemma includesStr_single: "includesStr s [c] = (c \<in> set s)"
proof (induction s)
  case Nil
  show ?case by simp
next
  case (Cons x xs)
  have "startsWith (x # xs) [c] = (x = c)" by simp
  with Cons show ?case by auto
qed

lemma getFormatsFromLog_loop_map_filter:
  "getFormatsFromLog_loop ls acc =
     Inr (acc @ List.map_filter (\<lambda>l. case formatOfLine l of Inr r \<Rightarrow> r | Inl x \<Rightarrow> None) ls)"
proof (induction ls arbitrary: acc)
  case Nil
  show ?case by (simp add: List.map_filter_simps)
next
  case (Cons l ls)
  show ?case
  proof (cases "formatOfLine l")
    case (Inl x)
    then show ?thesis using formatOfLine_not_Inl by blast
  next
    case (Inr r)
    then show ?thesis by (cases r) (simp_all add: Cons.IH List.map_filter_simps)
  qed
qed

section \<open>The capability parser: what it returns\<close>

lemma formatOfLine_matching:
  assumes "test formatLineRegex (trim l)"
  shows "\<exists>f. formatOfLine l = Inr (Some f)"
proof (cases "formatOfLine l")
  case (Inl x)
  then show ?thesis using formatOfLine_not_Inl by blast
next
  case (Inr r)
  with assms formatOfLine_None_iff[of l] show ?thesis by (cases r) auto
qed

lemma pushed_None_iff:
  "(case formatOfLine l of Inl x \<Rightarrow> None | Inr r \<Rightarrow> r) \<noteq> None \<longleftrightarrow> test formatLineRegex (trim l)"
proof (cases "formatOfLine l")
  case (Inl x)
  then show ?thesis using formatOfLine_not_Inl by blast
next
  case (Inr r)
  with formatOfLine_None_iff[of l] show ?thesis by (cases r) auto
qed

lemma getFormatsFromLog_map_filter:
  "getFormatsFromLog ls =
     Inr (List.map_filter (\<lambda>l. case formatOfLine l of Inl x \<Rightarrow> None | Inr r \<Rightarrow> r) ls)"
  by (simp add: getFormatsFromLog_def getFormatsFromLog_loop_map_filter)

lemma getFormatsFromLog_filter:
  "getFormatsFromLog ls =
     Inr (map (\<lambda>l. the (case formatOfLine l of Inl x \<Rightarrow> None | Inr r \<Rightarrow> r))
            (filter (\<lambda>l. test formatLineRegex (trim l)) ls))"
  by (simp add: getFormatsFromLog_map_filter List.map_filter_def pushed_None_iff comp_def
        del: not_None_eq)

lemma matching_line_flags:
  assumes "test formatLineRegex (trim l)"
  shows "flagsOf l \<in> {''D'', ''DE'', ''E''}
     \<and> demuxingSupported (the (case formatOfLine l of Inl x \<Rightarrow> None | Inr r \<Rightarrow> r))
         = (CHR ''D'' \<in> set (flagsOf l))
     \<and> muxingSupported (the (case formatOfLine l of Inl x \<Rightarrow> None | Inr r \<Rightarrow> r))
         = (CHR ''E'' \<in> set (flagsOf l))"
proof -
  from formatOfLine_matching[OF assms] obtain f where f: "formatOfLine l = Inr (Some f)" by blast
  from formatOfLine_Some[OF f] obtain fl a n c r where
    fl: "fl \<in> {''D'', ''DE'', ''E''}" and t: "trim l = fl @ c # r" "isWhiteSpace c" and
    ff: "f = \<lparr> demuxingSupported = includesStr fl ''D'', muxingSupported = includesStr fl ''E'',
                   abbreviation = a, name = n \<rparr>"
    by blast
  have "flagsOf l = fl" unfolding flagsOf_def t(1) by (rule flags_takeWhile[OF fl t(2)])
  with f ff fl show ?thesis by (simp add: includesStr_single)
qed

lemma not_startsWithFlags_no_match:
  assumes "\<not> startsWithFlags l"
  shows "\<not> test formatLineRegex (trim l)"
proof
  assume "test formatLineRegex (trim l)"
  then obtain m where "match (trim l) formatLineRegex = Some m" by (auto simp: test_def)
  from match_formatLine[OF this] obtain fl c r where
    "fl \<in> {''D'', ''DE'', ''E''}" "trim l = fl @ c # r" "isWhiteSpace c" by blast
  then have "startsWithFlags l"
    unfolding startsWithFlags_def by (auto simp: startsWith_append)
  with assms show False by simp
qed

text \<open>
  Claim C5. The parser maps the line \<open>D  asf    ASF (Advanced Streaming Format)\<close> to the
  descriptor with abbreviation \<open>asf\<close>, that name, demuxing supported and muxing not
  supported, and the line \<open>DE mp4    MP4 (MPEG-4 Part 14)\<close> to a descriptor with both
  supported. In general the descriptors are those of the matching lines, one for one and in
  order; the flags column of each matching line is \<open>D\<close>, \<open>DE\<close> or \<open>E\<close>, its
  descriptor has demuxing supported exactly when the flags contain \<open>D\<close> and muxing
  supported exactly when they contain \<open>E\<close>.
\<close>

theorem getFormatsFromLog_flags:
  "getFormatsFromLog [''D  asf    ASF (Advanced Streaming Format)'']
     = Inr [\<lparr> demuxingSupported = True, muxingSupported = False, abbreviation = ''asf'',
              name = ''ASF (Advanced Streaming Format)'' \<rparr>]
   \<and> getFormatsFromLog [''DE mp4    MP4 (MPEG-4 Part 14)'']
     = Inr [\<lparr> demuxingSupported = True, muxingSupported = True, abbreviation = ''mp4'',
              name = ''MP4 (MPEG-4 Part 14)'' \<rparr>]
   \<and> (\<exists>fs. getFormatsFromLog ls = Inr fs
         \<and> length fs = length (filter (\<lambda>l. test formatLineRegex (trim l)) ls)
         \<and> (\<forall>i < length fs.
               flagsOf (filter (\<lambda>l. test formatLineRegex (trim l)) ls ! i) \<in> {''D'', ''DE'', ''E''}
             \<and> demuxingSupported (fs ! i)
                 = (CHR ''D'' \<in> set (flagsOf (filter (\<lambda>l. test formatLineRegex (trim l)) ls ! i)))
             \<and> muxingSupported (fs ! i)
                 = (CHR ''E'' \<in> set (flagsOf (filter (\<lambda>l. test formatLineRegex (trim l)) ls ! i)))))"
proof (intro conjI)
  show "getFormatsFromLog [''D  asf    ASF (Advanced Streaming Format)'']
     = Inr [\<lparr> demuxingSupported = True, muxingSupported = False, abbreviation = ''asf'',
              name = ''ASF (Advanced Streaming Format)'' \<rparr>]"
    by code_simp
  show "getFormatsFromLog [''DE mp4    MP4 (MPEG-4 Part 14)'']
     = Inr [\<lparr> demuxingSupported = True, muxingSupported = True, abbreviation = ''mp4'',
              name = ''MP4 (MPEG-4 Part 14)'' \<rparr>]"
    by code_simp
next
  let ?m = "filter (\<lambda>l. test formatLineRegex (trim l)) ls"
  let ?d = "\<lambda>l. the (case formatOfLine l of Inl x \<Rightarrow> None | Inr r \<Rightarrow> r)"
  have eq: "getFormatsFromLog ls = Inr (map ?d ?m)" by (rule getFormatsFromLog_filter)
  have "\<forall>i < length (map ?d ?m).
          flagsOf (?m ! i) \<in> {''D'', ''DE'', ''E''}
        \<and> demuxingSupported (map ?d ?m ! i) = (CHR ''D'' \<in> set (flagsOf (?m ! i)))
        \<and> muxingSupported (map ?d ?m ! i) = (CHR ''E'' \<in> set (flagsOf (?m ! i)))"
  proof (intro allI impI)
    fix i assume i: "i < length (map ?d ?m)"
    then have "i < length ?m" by simp
    then have "?m ! i \<in> set ?m" by (rule nth_mem)
    then have "test formatLineRegex (trim (?m ! i))" by simp
    from matching_line_flags[OF this] i
    show "flagsOf (?m ! i) \<in> {''D'', ''DE'', ''E''}
        \<and> demuxingSupported (map ?d ?m ! i) = (CHR ''D'' \<in> set (flagsOf (?m ! i)))
        \<and> muxingSupported (map ?d ?m ! i) = (CHR ''E'' \<in> set (flagsOf (?m ! i)))"
      by simp
  qed
  with eq show "\<exists>fs. getFormatsFromLog ls = Inr fs
         \<and> length fs = length ?m
         \<and> (\<forall>i < length fs.
               flagsOf (?m ! i) \<in> {''D'', ''DE'', ''E''}
             \<and> demuxingSupported (fs ! i) = (CHR ''D'' \<in> set (flagsOf (?m ! i)))
             \<and> muxingSupported (fs ! i) = (CHR ''E'' \<in> set (flagsOf (?m ! i))))"
    by (intro exI[of _ "map ?d ?m"]) simp
qed

text \<open>The general part of C5 at the sample listing: its third matching line has flags \<open>E\<close>.\<close>

theorem getFormatsFromLog_flags_witness:
  "0 < length (filter (\<lambda>l. test formatLineRegex (trim l)) formatListing)
   \<and> flagsOf (filter (\<lambda>l. test formatLineRegex (trim l)) formatListing ! 2) = ''E''
   \<and> (\<exists>fs. getFormatsFromLog formatListing = Inr fs \<and> length fs = 3
         \<and> \<not> demuxingSupported (fs ! 2) \<and> muxingSupported (fs ! 2))"
proof -
  have m: "filter (\<lambda>l. test formatLineRegex (trim l)) formatListing
             = ['' D  asf             ASF (Advanced Streaming Format)'',
                '' DE mp4             MP4 (MPEG-4 Part 14)'',
                ''  E webm            WebM'']"
    by code_simp
  have fl: "flagsOf ''  E webm            WebM'' = ''E''" by code_simp
  from getFormatsFromLog_flags[of formatListing] obtain fs where
    fs: "getFormatsFromLog formatListing = Inr fs"
      "length fs = length (filter (\<lambda>l. test formatLineRegex (trim l)) formatListing)"
      "\<forall>i < length fs.
               flagsOf (filter (\<lambda>l. test formatLineRegex (trim l)) formatListing ! i) \<in> {''D'', ''DE'', ''E''}
             \<and> demuxingSupported (fs ! i)
                 = (CHR ''D'' \<in> set (flagsOf (filter (\<lambda>l. test formatLineRegex (trim l)) formatListing ! i)))
             \<and> muxingSupported (fs ! i)
                 = (CHR ''E'' \<in> set (flagsOf (filter (\<lambda>l. test formatLineRegex (trim l)) formatListing ! i)))"
    by blast
  from fs(2) have len: "length fs = 3" unfolding m by simp
  with fs(3) have "demuxingSupported (fs ! 2)
                 = (CHR ''D'' \<in> set (flagsOf (filter (\<lambda>l. test formatLineRegex (trim l)) formatListing ! 2)))
             \<and> muxingSupported (fs ! 2)
                 = (CHR ''E'' \<in> set (flagsOf (filter (\<lambda>l. test formatLineRegex (trim l)) formatListing ! 2)))"
    by simp
  then have "\<not> demuxingSupported (fs ! 2) \<and> muxingSupported (fs ! 2)"
    unfolding m by (simp add: fl)
  with fs(1) len m fl show ?thesis by simp
qed

text \<open>
  Claim C6. For every list of lines the parser returns a list and raises nothing. The list
  is made of the descriptors of the lines, each line giving one descriptor or none, in the
  order of the lines; its length is the number of matching lines. A line whose trimmed form
  does not start with \<open>D\<close>, \<open>DE\<close> or \<open>E\<close> followed by white space gives no
  descriptor; when such a line is present the result is strictly shorter than the input, and
  when no line matches the result is empty.
\<close>

theorem getFormatsFromLog_total_ordered:
  "\<exists>fs. getFormatsFromLog ls = Inr fs
     \<and> fs = List.map_filter (\<lambda>l. case formatOfLine l of Inl x \<Rightarrow> None | Inr r \<Rightarrow> r) ls
     \<and> length fs = length (filter (\<lambda>l. test formatLineRegex (trim l)) ls)
     \<and> (\<forall>l \<in> set ls. \<not> startsWithFlags l \<longrightarrow> formatOfLine l = Inr None)
     \<and> ((\<exists>l \<in> set ls. \<not> startsWithFlags l) \<longrightarrow> length fs < length ls)
     \<and> ((\<forall>l \<in> set ls. \<not> test formatLineRegex (trim l)) \<longrightarrow> fs = [])"
proof -
  let ?p = "\<lambda>l. test formatLineRegex (trim l)"
  let ?fs = "List.map_filter (\<lambda>l. case formatOfLine l of Inl x \<Rightarrow> None | Inr r \<Rightarrow> r) ls"
  have 1: "getFormatsFromLog ls = Inr ?fs" by (rule getFormatsFromLog_map_filter)
  have 2: "length ?fs = length (filter ?p ls)"
    by (simp add: List.map_filter_def pushed_None_iff del: not_None_eq)
  have 3: "\<forall>l \<in> set ls. \<not> startsWithFlags l \<longrightarrow> formatOfLine l = Inr None"
    using not_startsWithFlags_no_match formatOfLine_None_iff by blast
  have 4: "(\<exists>l \<in> set ls. \<not> startsWithFlags l) \<longrightarrow> length ?fs < length ls"
  proof
    assume "\<exists>l \<in> set ls. \<not> startsWithFlags l"
    then obtain l where "l \<in> set ls" "\<not> ?p l" using not_startsWithFlags_no_match by blast
    then have "length (filter ?p ls) < length ls" by (rule length_filter_less)
    with 2 show "length ?fs < length ls" by simp
  qed
  have 5: "(\<forall>l \<in> set ls. \<not> ?p l) \<longrightarrow> ?fs = []"
  proof
    assume "\<forall>l \<in> set ls. \<not> ?p l"
    then have "filter ?p ls = []" by (simp add: filter_empty_conv)
    with 2 show "?fs = []" by simp
  qed
  from 1 2 3 4 5 show ?thesis by blast
qed

text \<open>C6 at the sample listing, whose header is not a format line, and at a separator line alone.\<close>

theorem getFormatsFromLog_total_ordered_witness:
  "''File formats:'' \<in> set formatListing \<and> \<not> startsWithFlags ''File formats:''
   \<and> (\<exists>fs. getFormatsFromLog formatListing = Inr fs \<and> length fs < length formatListing)
   \<and> formatOfLine ''File formats:'' = Inr None
   \<and> \<not> test formatLineRegex (trim '' --'')
   \<and> getFormatsFromLog ['' --''] = Inr []"
proof -
  have i: "''File formats:'' \<in> set formatListing" by (simp add: formatListing_def)
  have n: "\<not> startsWithFlags ''File formats:''" by code_simp
  have t: "\<not> test formatLineRegex (trim '' --'')" by code_simp
  from getFormatsFromLog_total_ordered[of formatListing] obtain fs where
    fs: "getFormatsFromLog formatListing = Inr fs"
      "\<forall>l \<in> set formatListing. \<not> startsWithFlags l \<longrightarrow> formatOfLine l = Inr None"
      "(\<exists>l \<in> set formatListing. \<not> startsWithFlags l) \<longrightarrow> length fs < length formatListing"
    by blast
  from fs(3) i n have 1: "length fs < length formatListing" by blast
  from fs(2) i n have 2: "formatOfLine ''File formats:'' = Inr None" by blast
  from getFormatsFromLog_total_ordered[of "['' --'']"] obtain gs where
    gs: "getFormatsFromLog ['' --''] = Inr gs"
      "(\<forall>l \<in> set ['' --'']. \<not> test formatLineRegex (trim l)) \<longrightarrow> gs = []"
    by blast
  from gs t have 3: "getFormatsFromLog ['' --''] = Inr []" by simp
  from i n t fs(1) 1 2 3 show ?thesis by blast
qed

section \<open>Events and the steps of startup and conversion\<close>

lemma handleEvent_progress: "\<exists>p. handleEvent ev st = st\<lparr>progress := p\<rparr>"
proof (cases ev)
  case (ProgressEvent x)
  then show ?thesis by auto
next
  case (LogEvent m)
  then have "handleEvent ev st = st\<lparr>progress := progress st\<rparr>" by simp
  then show ?thesis by blast
qed

lemma handleEvents_progress:
  "s \<in> set (st # handleEvents evs st) \<Longrightarrow> \<exists>p. s = st\<lparr>progress := p\<rparr>"
proof (induction evs arbitrary: st)
  case Nil
  then have "s = st\<lparr>progress := progress st\<rparr>" by simp
  then show ?case by blast
next
  case (Cons ev evs)
  show ?case
  proof (cases "s = st")
    case True
    then have "s = st\<lparr>progress := progress st\<rparr>" by simp
    then show ?thesis by blast
  next
    case False
    with Cons.prems have "s \<in> set (handleEvent ev st # handleEvents evs (handleEvent ev st))"
      by simp
    from Cons.IH[OF this] obtain p where p: "s = (handleEvent ev st)\<lparr>progress := p\<rparr>" by blast
    obtain q where "handleEvent ev st = st\<lparr>progress := q\<rparr>"
      using handleEvent_progress by blast
    with p have "s = st\<lparr>progress := p\<rparr>" by simp
    then show ?thesis by blast
  qed
qed

lemma handleEvents_last: "\<exists>p. last (st # handleEvents evs st) = st\<lparr>progress := p\<rparr>"
proof -
  have "last (st # handleEvents evs st) \<in> set (st # handleEvents evs st)"
    by (rule last_in_set) simp
  then show ?thesis by (rule handleEvents_progress)
qed

lemma handleEvents_fields:
  assumes "s \<in> set (handleEvents evs st)"
  shows "status s = status st \<and> error s = error st \<and> formats s = formats st
       \<and> selectedOutputFormat s = selectedOutputFormat st \<and> downloads s = downloads st"
proof -
  from assms have "s \<in> set (st # handleEvents evs st)" by simp
  from handleEvents_progress[OF this] obtain p where "s = st\<lparr>progress := p\<rparr>" by blast
  then show ?thesis by simp
qed

lemma find_filter_first:
  "(case List.find P xs of None \<Rightarrow> a | Some f \<Rightarrow> g f)
     = (if length (filter P xs) > 0 then g (filter P xs ! 0) else a)"
  by (induction xs) auto

lemma loadFFmpeg_load_fails:
  assumes "load ffmpeg e = None"
  shows "loadFFmpeg ffmpeg e st = ([st\<lparr>status := Loading\<rparr>], Inl EngineFailure, e)"
  using assms by (simp add: loadFFmpeg_def)

lemma loadFFmpeg_exec_fails:
  assumes "load ffmpeg e = Some e1" "exec ffmpeg [''-formats''] e1 = None"
  shows "loadFFmpeg ffmpeg e st
           = ([st\<lparr>status := Loading\<rparr>, st\<lparr>status := Loaded\<rparr>], Inl EngineFailure, e1)"
  using assms by (simp add: loadFFmpeg_def)

lemma loadFFmpeg_discovers:
  assumes "load ffmpeg e = Some e1" "exec ffmpeg [''-formats''] e1 = Some (events, code, e2)"
  shows "\<exists>fs p. getFormatsFromLog (loggedMessages events) = Inr fs
          \<and> loadFFmpeg ffmpeg e st
            = ([st\<lparr>status := Loading\<rparr>, st\<lparr>status := Loaded\<rparr>]
                 @ handleEvents events (st\<lparr>status := Loaded\<rparr>)
                 @ [if length (filter muxingSupported fs) > 0
                    then st\<lparr>status := Loaded, progress := p, formats := fs,
                            selectedOutputFormat := abbreviation (filter muxingSupported fs ! 0)\<rparr>
                    else st\<lparr>status := Loaded, progress := p, formats := fs\<rparr>],
               Inr (), e2)"
proof -
  obtain fs where fs: "getFormatsFromLog (loggedMessages events) = Inr fs"
    using getFormatsFromLog_map_filter by blast
  obtain p where p: "last (st\<lparr>status := Loaded\<rparr> # handleEvents events (st\<lparr>status := Loaded\<rparr>))
        = st\<lparr>status := Loaded, progress := p\<rparr>"
    using handleEvents_last[of "st\<lparr>status := Loaded\<rparr>" events] by auto
  have "loadFFmpeg ffmpeg e st
            = ([st\<lparr>status := Loading\<rparr>, st\<lparr>status := Loaded\<rparr>]
                 @ handleEvents events (st\<lparr>status := Loaded\<rparr>)
                 @ [if length (filter muxingSupported fs) > 0
                    then st\<lparr>status := Loaded, progress := p, formats := fs,
                            selectedOutputFormat := abbreviation (filter muxingSupported fs ! 0)\<rparr>
                    else st\<lparr>status := Loaded, progress := p, formats := fs\<rparr>],
               Inr (), e2)"
    unfolding loadFFmpeg_def Let_def using assms fs p by simp
  with fs show ?thesis by blast
qed

lemma convertVideo_entry:
  "hd (fst (convertVideo video ffmpeg e st)) = st\<lparr>status := ConvertStart, error := ''''\<rparr>"
  by (simp add: convertVideo_def Let_def split: option.splits prod.splits)

lemma convertVideo_nonzero:
  assumes "arrayBuffer video = Some videoData"
    "writeFile ffmpeg ''input.webm'' videoData e = Some e1"
    "exec ffmpeg [''-i'', ''input.webm'', ''output.'' @ selectedOutputFormat st] e1
       = Some (events, result, e2)"
    "result \<noteq> 0"
  shows "\<exists>p. convertVideo video ffmpeg e st
           = ([st\<lparr>status := ConvertStart, error := ''''\<rparr>]
                @ handleEvents events (st\<lparr>status := ConvertStart, error := ''''\<rparr>)
                @ [st\<lparr>status := ConvertError, error := ''Failed to convert video'', progress := p\<rparr>],
              Inr None, e2)"
proof -
  let ?st1 = "st\<lparr>status := ConvertStart, error := ''''\<rparr>"
  obtain p where p: "last (?st1 # handleEvents events ?st1) = ?st1\<lparr>progress := p\<rparr>"
    using handleEvents_last by blast
  have "convertVideo video ffmpeg e st
           = ([?st1] @ handleEvents events ?st1
                @ [st\<lparr>status := ConvertError, error := ''Failed to convert video'', progress := p\<rparr>],
              Inr None, e2)"
    unfolding convertVideo_def Let_def using assms p by simp
  then show ?thesis by blast
qed

lemma convertVideo_zero:
  assumes "arrayBuffer video = Some videoData"
    "writeFile ffmpeg ''input.webm'' videoData e = Some e1"
    "exec ffmpeg [''-i'', ''input.webm'', ''output.'' @ selectedOutputFormat st] e1
       = Some (events, 0, e2)"
    "readFile ffmpeg ''output.mp4'' e2 = Some data"
  shows "\<exists>p. convertVideo video ffmpeg e st
           = ([st\<lparr>status := ConvertStart, error := ''''\<rparr>]
                @ handleEvents events (st\<lparr>status := ConvertStart, error := ''''\<rparr>)
                @ [st\<lparr>status := ConvertDone, error := '''', progress := p\<rparr>],
              Inr (Some data), e2)"
proof -
  let ?st1 = "st\<lparr>status := ConvertStart, error := ''''\<rparr>"
  obtain p where p: "last (?st1 # handleEvents events ?st1) = ?st1\<lparr>progress := p\<rparr>"
    using handleEvents_last by blast
  have "convertVideo video ffmpeg e st
           = ([?st1] @ handleEvents events ?st1
                @ [st\<lparr>status := ConvertDone, error := '''', progress := p\<rparr>],
              Inr (Some data), e2)"
    unfolding convertVideo_def Let_def using assms p by simp
  then show ?thesis by blast
qed

lemma convertVideo_returns_data:
  assumes "convertVideo video ffmpeg e st = (states, Inr (Some data), e')"
  shows "\<exists>p. last states = st\<lparr>status := ConvertDone, error := '''', progress := p\<rparr>"
proof -
  let ?st1 = "st\<lparr>status := ConvertStart, error := ''''\<rparr>"
  from assms obtain videoData e1 events where
    "arrayBuffer video = Some videoData"
    "writeFile ffmpeg ''input.webm'' videoData e = Some e1"
    "exec ffmpeg [''-i'', ''input.webm'', ''output.'' @ selectedOutputFormat st] e1
       = Some (events, 0, e')"
    "readFile ffmpeg ''output.mp4'' e' = Some data"
    unfolding convertVideo_def Let_def
    by (auto split: option.splits prod.splits if_splits)
  from convertVideo_zero[OF this] assms show ?thesis by auto
qed

lemma onDropped_accepted:
  assumes "files = [file]" "fileFormat file \<noteq> ''''" "isFileFormatSupported st file \<noteq> None"
  shows "onDropped files ffmpeg e st =
           (case convertVideo file ffmpeg e st of
              (states, Inl x, e') \<Rightarrow> (states, Inl x, e')
            | (states, Inr None, e') \<Rightarrow> (states, Inr (), e')
            | (states, Inr (Some data), e') \<Rightarrow>
                (states @ [download data (last states)], Inr (), e'))"
  using assms by (simp add: onDropped_def del: not_None_eq)

lemma onDropped_entry:
  assumes "files = [file]" "fileFormat file \<noteq> ''''" "isFileFormatSupported st file \<noteq> None"
  shows "hd (fst (onDropped files ffmpeg e st)) = st\<lparr>status := ConvertStart, error := ''''\<rparr>"
proof -
  obtain states r e' where c: "convertVideo file ffmpeg e st = (states, r, e')"
    by (cases "convertVideo file ffmpeg e st")
  have ne: "states \<noteq> []"
    using c unfolding convertVideo_def Let_def
    by (auto split: option.splits prod.splits if_splits)
  have "hd states = st\<lparr>status := ConvertStart, error := ''''\<rparr>"
    using convertVideo_entry[of "file" "ffmpeg" "e" "st"] c by simp
  moreover have "hd (fst (onDropped files ffmpeg e st)) = hd states"
    unfolding onDropped_accepted[OF assms] c using ne
    by (auto split: sum.splits option.splits)
  ultimately show ?thesis by simp
qed





lemma mult_one_hundred: "mult (Finite False (Suc 0) 0) (numberOf 100) = numberOf 100"
  by code_simp




lemma clipMp4_fileFormat: "fileFormat clipMp4 = ''mp4''"
  by (simp add: fileFormat_def clipMp4_def pop_def)

lemma afterFirstJob_eq:
  "afterFirstJob = loadedPage\<lparr>status := ConvertDone, progress := numberOf 100,
     downloads := [\<lparr> blobParts = [1, 2, 3], blobType = ''video/mp4'', downloadName = ''output.mp4'' \<rparr>]\<rparr>"
  by (simp add: afterFirstJob_def fileFormat_def clipMp4_def pop_def loadedPage_def onDropped_def
      isFileFormatSupported_def endsWith_def convertVideo_def exitEngine_def download_def Let_def
      mult_one_hundred)

lemma failedPage_eq:
  "failedPage = loadedPage\<lparr>status := ConvertError, error := ''Failed to convert video'',
     progress := numberOf 100\<rparr>"
  by (simp add: failedPage_def fileFormat_def clipMp4_def pop_def loadedPage_def onDropped_def
      isFileFormatSupported_def endsWith_def convertVideo_def exitEngine_def download_def Let_def
      mult_one_hundred)

lemma clipMp4_supported:
  "formats st = formats loadedPage \<Longrightarrow> isFileFormatSupported st clipMp4 \<noteq> None"
  by (simp add: isFileFormatSupported_def loadedPage_def fileFormat_def pop_def endsWith_def
      clipMp4_def)

section \<open>The acceptance test of the drop handler\<close>

text \<open>
  The last piece of a name split at the dots is always an end of the name, so the test
  inside \<open>find\<close> holds for every format: a single file is accepted as soon as its
  name does not end with a dot and some format can be demuxed.
\<close>

lemma split_nonempty: "split sep s \<noteq> []"
  by (induction s) (auto split: list.splits)

lemma split_single: "split sep s = [x] \<Longrightarrow> x = s"
proof (induction s arbitrary: x)
  case Nil
  then show ?case by simp
next
  case (Cons c cs)
  show ?case
  proof (cases "c = sep")
    case True
    with Cons.prems split_nonempty[of sep cs] show ?thesis by simp
  next
    case False
    obtain y ys where y: "split sep cs = y # ys"
      using split_nonempty[of sep cs] by (cases "split sep cs") auto
    with Cons.prems False have "ys = []" "x = c # y" by auto
    with y Cons.IH[of y] show ?thesis by simp
  qed
qed

lemma split_last_suffix: "\<exists>p. s = p @ last (split sep s)"
proof (induction s)
  case Nil
  show ?case by simp
next
  case (Cons c cs)
  then obtain p where p: "cs = p @ last (split sep cs)" by blast
  obtain y ys where y: "split sep cs = y # ys"
    using split_nonempty[of sep cs] by (cases "split sep cs") auto
  show ?case
  proof (cases "c = sep \<or> ys \<noteq> []")
    case True
    then have "last (split sep (c # cs)) = last (split sep cs)" using y by auto
    with p have "c # cs = (c # p) @ last (split sep (c # cs))" by simp
    then show ?thesis by blast
  next
    case False
    with y have "y = cs" using split_single[of sep cs y] by simp
    with False y have "last (split sep (c # cs)) = c # cs" by simp
    then show ?thesis by simp
  qed
qed

lemma endsWith_last_split: "endsWith s (last (split sep s))"
proof -
  obtain p where "s = p @ last (split sep s)" using split_last_suffix by blast
  then have "length (last (split sep s)) \<le> length s \<and>
        drop (length s - length (last (split sep s))) s = last (split sep s)"
    by (metis append_eq_conv_conj diff_add_inverse2 le_add2 length_append)
  then show ?thesis by (simp add: endsWith_def)
qed

lemma fileFormat_last: "fileFormat file = last (split (CHR ''.'') (File.name file))"
  by (simp add: fileFormat_def pop_def split_nonempty)

lemma find_True: "List.find (\<lambda>f. True) xs = (case xs of [] \<Rightarrow> None | x # r \<Rightarrow> Some x)"
  by (cases xs) simp_all

lemma isFileFormatSupported_any:
  "isFileFormatSupported st file \<noteq> None \<longleftrightarrow> (\<exists>f \<in> set (formats st). demuxingSupported f)"
proof -
  have "isFileFormatSupported st file
          = (case filter demuxingSupported (formats st) of [] \<Rightarrow> None | x # r \<Rightarrow> Some x)"
    unfolding isFileFormatSupported_def fileFormat_last
    by (simp add: endsWith_last_split find_True)
  moreover have "filter demuxingSupported (formats st) \<noteq> []
      \<longleftrightarrow> (\<exists>f \<in> set (formats st). demuxingSupported f)"
    by (simp add: filter_empty_conv)
  ultimately show ?thesis by (cases "filter demuxingSupported (formats st)") simp_all
qed

lemma onDropped_accepts_any_extension:
  assumes "fileFormat file \<noteq> ''''" "\<exists>f \<in> set (formats st). demuxingSupported f"
  shows "status (hd (fst (onDropped [file] ffmpeg e st))) = ConvertStart"
proof -
  from assms(2) have s: "isFileFormatSupported st file \<noteq> None"
    by (simp only: isFileFormatSupported_any)
  show ?thesis unfolding onDropped_entry[OF refl assms(1) s] by simp
qed

section \<open>Startup\<close>

text \<open>
  Claim C3 as stated fails. It says that the status is \<open>Loaded\<close> only after the format
  list has been populated. In the startup of the sample engine the second state of the page
  has status \<open>Loaded\<close> and an empty format list, while the startup ends with three
  formats: \<open>status = "loaded"\<close> is assigned right after \<open>load\<close>, before
  \<open>exec(["-formats"])\<close> is even started.
\<close>

theorem loadFFmpeg_loaded_before_formats:
  "status (fst (loadFFmpeg vfsEngine Map.empty initialPage) ! 1) = Loaded
   \<and> formats (fst (loadFFmpeg vfsEngine Map.empty initialPage) ! 1) = []
   \<and> map abbreviation (formats (last (fst (loadFFmpeg vfsEngine Map.empty initialPage))))
       = [''asf'', ''mp4'', ''webm'']"
  by code_simp

text \<open>
  Claim C3, amended. The status becomes \<open>Loaded\<close> as soon as the engine load has
  succeeded, before capability discovery runs and with the format list still as it was; it
  is never \<open>Loaded\<close> when the load fails (the page stays in \<open>Loading\<close>). The format
  list is unchanged in every state of startup but the last, and is populated with the parsed
  listing only at the end of a startup that returns.
\<close>

theorem loadFFmpeg_status_loaded:
  assumes "loadFFmpeg ffmpeg e st = (states, r, e')"
  shows "(load ffmpeg e = None \<longrightarrow> (\<forall>s \<in> set states. status s = Loading))
       \<and> (load ffmpeg e \<noteq> None \<longrightarrow>
            status (hd states) = Loading \<and> tl states \<noteq> []
          \<and> status (hd (tl states)) = Loaded \<and> formats (hd (tl states)) = formats st
          \<and> (\<forall>s \<in> set (tl states). status s = Loaded))
       \<and> (\<forall>s \<in> set (butlast states). formats s = formats st)
       \<and> (r = Inr () \<longrightarrow>
            (\<exists>e1 events code. load ffmpeg e = Some e1
               \<and> exec ffmpeg [''-formats''] e1 = Some (events, code, e')
               \<and> getFormatsFromLog (loggedMessages events) = Inr (formats (last states))))"
proof (cases "load ffmpeg e")
  case None
  from loadFFmpeg_load_fails[OF None, of st] assms
  have "states = [st\<lparr>status := Loading\<rparr>]" "r = Inl EngineFailure" by simp_all
  with None show ?thesis by simp
next
  case (Some e1)
  show ?thesis
  proof (cases "exec ffmpeg [''-formats''] e1")
    case None
    from loadFFmpeg_exec_fails[OF Some None, of st] assms
    have "states = [st\<lparr>status := Loading\<rparr>, st\<lparr>status := Loaded\<rparr>]" "r = Inl EngineFailure"
      by simp_all
    with Some show ?thesis by simp
  next
    case ex: (Some x)
    obtain events code e2 where x: "x = (events, code, e2)" by (cases x)
    let ?st2 = "st\<lparr>status := Loaded\<rparr>"
    from loadFFmpeg_discovers[OF Some ex[unfolded x], of st] assms obtain fs p lst where
      fs: "getFormatsFromLog (loggedMessages events) = Inr fs" and
      lst: "lst = (if length (filter muxingSupported fs) > 0
                    then st\<lparr>status := Loaded, progress := p, formats := fs,
                            selectedOutputFormat := abbreviation (filter muxingSupported fs ! 0)\<rparr>
                    else st\<lparr>status := Loaded, progress := p, formats := fs\<rparr>)" and
      states: "states = [st\<lparr>status := Loading\<rparr>, ?st2] @ handleEvents events ?st2 @ [lst]" and
      r: "r = Inr ()" "e' = e2"
      by auto
    have during: "\<forall>s \<in> set (handleEvents events ?st2). status s = Loaded \<and> formats s = formats st"
      using handleEvents_fields[of _ events ?st2] by auto
    have l1: "status lst = Loaded" "formats lst = fs" using lst by auto
    have b: "butlast states = [st\<lparr>status := Loading\<rparr>, ?st2] @ handleEvents events ?st2"
      unfolding states by (simp add: butlast_append)
    have t: "tl states = ?st2 # handleEvents events ?st2 @ [lst]" unfolding states by simp
    have la: "last states = lst" unfolding states by simp
    have 1: "status (hd states) = Loading" unfolding states by simp
    have 2: "\<forall>s \<in> set (tl states). status s = Loaded" unfolding t using during l1 by auto
    have 3: "\<forall>s \<in> set (butlast states). formats s = formats st" unfolding b using during by auto
    have 4: "status (hd (tl states)) = Loaded \<and> formats (hd (tl states)) = formats st \<and> tl states \<noteq> []"
      unfolding t by simp
    have 5: "exec ffmpeg [''-formats''] e1 = Some (events, code, e')
               \<and> getFormatsFromLog (loggedMessages events) = Inr (formats (last states))"
      using ex x r fs la l1 by simp
    have A: "load ffmpeg e = None \<longrightarrow> (\<forall>s \<in> set states. status s = Loading)"
      using Some by simp
    have B: "load ffmpeg e \<noteq> None \<longrightarrow>
            status (hd states) = Loading \<and> tl states \<noteq> []
          \<and> status (hd (tl states)) = Loaded \<and> formats (hd (tl states)) = formats st
          \<and> (\<forall>s \<in> set (tl states). status s = Loaded)"
      using 1 2 4 by simp
    have D: "r = Inr () \<longrightarrow>
            (\<exists>e1 events code. load ffmpeg e = Some e1
               \<and> exec ffmpeg [''-formats''] e1 = Some (events, code, e')
               \<and> getFormatsFromLog (loggedMessages events) = Inr (formats (last states)))"
      using Some 5 by blast
    from A B 3 D show ?thesis by (intro conjI)
  qed
qed

text \<open>The amended C3 at the sample engine, which loads, and at an engine that does not.\<close>

theorem loadFFmpeg_status_loaded_witness:
  "load vfsEngine Map.empty \<noteq> None
   \<and> status (hd (tl (fst (loadFFmpeg vfsEngine Map.empty initialPage)))) = Loaded
   \<and> formats (hd (tl (fst (loadFFmpeg vfsEngine Map.empty initialPage)))) = []
   \<and> load deadEngine () = None
   \<and> status (last (fst (loadFFmpeg deadEngine () initialPage))) = Loading"
proof -
  obtain states r fs where
    c: "loadFFmpeg vfsEngine Map.empty initialPage = (states, r, fs)"
    by (cases "loadFFmpeg vfsEngine Map.empty initialPage")
  obtain states' r' u where
    c': "loadFFmpeg deadEngine () initialPage = (states', r', u)"
    by (cases "loadFFmpeg deadEngine () initialPage")
  have l: "load vfsEngine Map.empty \<noteq> None" by (simp add: vfsEngine_def)
  have d: "load deadEngine () = None" by (simp add: deadEngine_def)
  from loadFFmpeg_status_loaded[OF c] l
  have 1: "status (hd (tl states)) = Loaded \<and> formats (hd (tl states)) = formats initialPage"
    by simp
  from loadFFmpeg_status_loaded[OF c'] d
  have 2: "\<forall>s \<in> set states'. status s = Loading" by simp
  have "states' \<noteq> []" using c' d by (auto simp: loadFFmpeg_load_fails)
  then have "last states' \<in> set states'" by (rule last_in_set)
  with 2 have 3: "status (last states') = Loading" by blast
  from 1 3 l d show ?thesis unfolding c c' by (simp add: initialPage_def)
qed

text \<open>
  Claim C10. When startup returns, the format list is the parsed listing that
  \<open>exec(["-formats"])\<close> logged, and the selected output format is the abbreviation of
  the first format of that list that supports muxing; when no format of the list supports
  muxing it is left as it was, which for the page as created is the empty string.
\<close>

theorem loadFFmpeg_selectedOutputFormat:
  assumes "loadFFmpeg ffmpeg e st = (states, Inr (), e')"
  shows "(\<exists>e1 events code. load ffmpeg e = Some e1
               \<and> exec ffmpeg [''-formats''] e1 = Some (events, code, e')
               \<and> getFormatsFromLog (loggedMessages events) = Inr (formats (last states)))
       \<and> selectedOutputFormat (last states)
           = (case List.find muxingSupported (formats (last states)) of
                None \<Rightarrow> selectedOutputFormat st
              | Some f \<Rightarrow> abbreviation f)
       \<and> selectedOutputFormat initialPage = ''''"
proof (cases "load ffmpeg e")
  case None
  from loadFFmpeg_load_fails[OF None, of st] assms show ?thesis by simp
next
  case (Some e1)
  show ?thesis
  proof (cases "exec ffmpeg [''-formats''] e1")
    case None
    from loadFFmpeg_exec_fails[OF Some None, of st] assms show ?thesis by simp
  next
    case ex: (Some x)
    obtain events code e2 where x: "x = (events, code, e2)" by (cases x)
    let ?st2 = "st\<lparr>status := Loaded\<rparr>"
    from loadFFmpeg_discovers[OF Some ex[unfolded x], of st] assms obtain fs p lst where
      fs: "getFormatsFromLog (loggedMessages events) = Inr fs" and
      lst: "lst = (if length (filter muxingSupported fs) > 0
                    then st\<lparr>status := Loaded, progress := p, formats := fs,
                            selectedOutputFormat := abbreviation (filter muxingSupported fs ! 0)\<rparr>
                    else st\<lparr>status := Loaded, progress := p, formats := fs\<rparr>)" and
      states: "states = [st\<lparr>status := Loading\<rparr>, ?st2] @ handleEvents events ?st2 @ [lst]" and
      r: "e' = e2"
      by auto
    have la: "last states = lst" unfolding states by simp
    have f: "formats lst = fs" using lst by auto
    have sel: "selectedOutputFormat lst
           = (if length (filter muxingSupported fs) > 0
              then abbreviation (filter muxingSupported fs ! 0) else selectedOutputFormat st)"
      using lst by auto
    have "selectedOutputFormat (last states)
           = (case List.find muxingSupported (formats (last states)) of
                None \<Rightarrow> selectedOutputFormat st
              | Some f \<Rightarrow> abbreviation f)"
      unfolding la f sel find_filter_first ..
    moreover have "selectedOutputFormat initialPage = ''''" by (simp add: initialPage_def)
    moreover have "exec ffmpeg [''-formats''] e1 = Some (events, code, e')
               \<and> getFormatsFromLog (loggedMessages events) = Inr (formats (last states))"
      using ex x r fs la f by simp
    ultimately show ?thesis using Some by blast
  qed
qed

text \<open>
  C10 at the sample engine (the first muxing format of its listing is \<open>mp4\<close>) and at an
  engine that logs nothing (no format, the selection stays empty).
\<close>

theorem loadFFmpeg_selectedOutputFormat_witness:
  "selectedOutputFormat (last (fst (loadFFmpeg vfsEngine Map.empty initialPage))) = ''mp4''
   \<and> formats (last (fst (loadFFmpeg (exitEngine 0) () initialPage))) = []
   \<and> selectedOutputFormat (last (fst (loadFFmpeg (exitEngine 0) () initialPage))) = ''''"
proof -
  have l: "last (fst (loadFFmpeg vfsEngine Map.empty initialPage)) = loadedPage" by code_simp
  have r: "fst (snd (loadFFmpeg vfsEngine Map.empty initialPage)) = Inr ()" by code_simp
  obtain states fs where
    c: "loadFFmpeg vfsEngine Map.empty initialPage = (states, Inr (), fs)"
    using r by (cases "loadFFmpeg vfsEngine Map.empty initialPage") auto
  have f: "formats (last states) = formats loadedPage" using l c by simp
  from loadFFmpeg_selectedOutputFormat[OF c]
  have 1: "selectedOutputFormat (last (fst (loadFFmpeg vfsEngine Map.empty initialPage))) = ''mp4''"
    unfolding c f by (simp add: loadedPage_def)
  have "\<exists>states. loadFFmpeg (exitEngine 0) () initialPage = (states, Inr (), ())"
    by (simp add: loadFFmpeg_def exitEngine_def Let_def getFormatsFromLog_def)
  then obtain states' where
    c': "loadFFmpeg (exitEngine 0) () initialPage = (states', Inr (), ())" by blast
  have f': "formats (last states') = []"
    using c' by (auto simp: loadFFmpeg_def exitEngine_def Let_def getFormatsFromLog_def)
  from loadFFmpeg_selectedOutputFormat[OF c']
  have 2: "selectedOutputFormat (last (fst (loadFFmpeg (exitEngine 0) () initialPage))) = ''''"
    unfolding c' f' by (simp add: initialPage_def)
  from 1 2 f' c' show ?thesis by simp
qed

section \<open>The drop handler\<close>

text \<open>
  Claim C1 is not met by the code. The claim lets a single dropped file start a conversion
  only when its extension matches a format that can be demuxed. On the page after startup
  the formats that can be demuxed are \<open>asf\<close> and \<open>mp4\<close>; the file \<open>clip.xyz\<close>,
  of extension \<open>xyz\<close>, is accepted all the same: the page goes to \<open>ConvertStart\<close>
  and on to \<open>ConvertDone\<close>, and no error is ever set. The test inside \<open>find\<close>
  compares the file name with its own extension and never looks at the format.
\<close>

theorem onDropped_unlisted_extension_accepted:
  "fileFormat clipXyz = ''xyz''
   \<and> map abbreviation (filter demuxingSupported (formats loadedPage)) = [''asf'', ''mp4'']
   \<and> status loadedPage = Loaded
   \<and> map status (fst (onDropped [clipXyz] vfsEngine Map.empty loadedPage))
       = [ConvertStart, ConvertStart, ConvertStart, ConvertDone, ConvertDone]
   \<and> map error (fst (onDropped [clipXyz] vfsEngine Map.empty loadedPage))
       = ['''', '''', '''', '''', '''']"
  by (simp add: fileFormat_def clipXyz_def pop_def loadedPage_def onDropped_def
      isFileFormatSupported_def endsWith_def convertVideo_def vfsEngine_def download_def)

text \<open>
  Claim C7. A drop of more than one file, in every state of the page and whatever the engine:
  the handler ends at once, the only change to the page is the error
  \<open>Only one file is allowed\<close>, the status is the one before the drop and the engine is
  not called (its state is returned as it was; no conversion starts).
\<close>

theorem onDropped_many_files:
  assumes "length files > 1"
  shows "onDropped files ffmpeg e st = ([st\<lparr>error := ''Only one file is allowed''\<rparr>], Inr (), e)
       \<and> status (last (fst (onDropped files ffmpeg e st))) = status st
       \<and> error (last (fst (onDropped files ffmpeg e st))) = ''Only one file is allowed''"
  using assms by (auto simp: onDropped_def)

text \<open>C7 for two files dropped on the page after a first conversion.\<close>

theorem onDropped_many_files_witness:
  "length [clipMp4, clipXyz] > 1
   \<and> onDropped [clipMp4, clipXyz] vfsEngine Map.empty afterFirstJob
       = ([afterFirstJob\<lparr>error := ''Only one file is allowed''\<rparr>], Inr (), Map.empty)
   \<and> status (last (fst (onDropped [clipMp4, clipXyz] vfsEngine Map.empty afterFirstJob))) = ConvertDone"
  using onDropped_many_files[of "[clipMp4, clipXyz]" vfsEngine Map.empty afterFirstJob]
  by (simp add: afterFirstJob_eq)

text \<open>
  Claim C4. For a drop of one file that the handler accepts, in every state of the page: on
  entry to the conversion the status is \<open>ConvertStart\<close> and the error is empty (so an
  error left by an earlier job, with status \<open>ConvertDone\<close> or \<open>ConvertError\<close>, is
  cleared). When the file is read and written and \<open>exec\<close> returns a non-zero exit code,
  the page ends in \<open>ConvertError\<close> with the non-empty error
  \<open>Failed to convert video\<close> and no download is produced. When \<open>exec\<close> returns 0
  and \<open>output.mp4\<close> is read, the page ends in \<open>ConvertDone\<close> with an empty error,
  and the bytes read are the ones handed to the download.
\<close>

theorem onDropped_conversion_outcome:
  assumes "files = [file]" "fileFormat file \<noteq> ''''" "isFileFormatSupported st file \<noteq> None"
  shows "status (hd (fst (onDropped files ffmpeg e st))) = ConvertStart
       \<and> error (hd (fst (onDropped files ffmpeg e st))) = ''''
       \<and> (arrayBuffer file = Some videoData
            \<and> writeFile ffmpeg ''input.webm'' videoData e = Some e1
            \<and> exec ffmpeg [''-i'', ''input.webm'', ''output.'' @ selectedOutputFormat st] e1
                 = Some (events, result, e2) \<longrightarrow>
            (result \<noteq> 0 \<longrightarrow>
               status (last (fst (onDropped files ffmpeg e st))) = ConvertError
             \<and> error (last (fst (onDropped files ffmpeg e st))) = ''Failed to convert video''
             \<and> error (last (fst (onDropped files ffmpeg e st))) \<noteq> ''''
             \<and> downloads (last (fst (onDropped files ffmpeg e st))) = downloads st)
          \<and> (result = 0 \<and> readFile ffmpeg ''output.mp4'' e2 = Some data \<longrightarrow>
               status (last (fst (onDropped files ffmpeg e st))) = ConvertDone
             \<and> error (last (fst (onDropped files ffmpeg e st))) = ''''
             \<and> blobParts (last (downloads (last (fst (onDropped files ffmpeg e st))))) = data))"
proof -
  have entry: "status (hd (fst (onDropped files ffmpeg e st))) = ConvertStart
       \<and> error (hd (fst (onDropped files ffmpeg e st))) = ''''"
    unfolding onDropped_entry[OF assms] by simp
  have run: "arrayBuffer file = Some videoData
            \<and> writeFile ffmpeg ''input.webm'' videoData e = Some e1
            \<and> exec ffmpeg [''-i'', ''input.webm'', ''output.'' @ selectedOutputFormat st] e1
                 = Some (events, result, e2) \<longrightarrow>
            (result \<noteq> 0 \<longrightarrow>
               status (last (fst (onDropped files ffmpeg e st))) = ConvertError
             \<and> error (last (fst (onDropped files ffmpeg e st))) = ''Failed to convert video''
             \<and> error (last (fst (onDropped files ffmpeg e st))) \<noteq> ''''
             \<and> downloads (last (fst (onDropped files ffmpeg e st))) = downloads st)
          \<and> (result = 0 \<and> readFile ffmpeg ''output.mp4'' e2 = Some data \<longrightarrow>
               status (last (fst (onDropped files ffmpeg e st))) = ConvertDone
             \<and> error (last (fst (onDropped files ffmpeg e st))) = ''''
             \<and> blobParts (last (downloads (last (fst (onDropped files ffmpeg e st))))) = data)"
  proof (intro impI conjI; (elim conjE)?)
    assume h: "arrayBuffer file = Some videoData"
      "writeFile ffmpeg ''input.webm'' videoData e = Some e1"
      "exec ffmpeg [''-i'', ''input.webm'', ''output.'' @ selectedOutputFormat st] e1
                 = Some (events, result, e2)"
      and nz: "result \<noteq> 0"
    from convertVideo_nonzero[OF h nz] obtain p where
      "convertVideo file ffmpeg e st
           = ([st\<lparr>status := ConvertStart, error := ''''\<rparr>]
                @ handleEvents events (st\<lparr>status := ConvertStart, error := ''''\<rparr>)
                @ [st\<lparr>status := ConvertError, error := ''Failed to convert video'', progress := p\<rparr>],
              Inr None, e2)" by blast
    then have l: "last (fst (onDropped files ffmpeg e st))
        = st\<lparr>status := ConvertError, error := ''Failed to convert video'', progress := p\<rparr>"
      unfolding onDropped_accepted[OF assms] by simp
    show "status (last (fst (onDropped files ffmpeg e st))) = ConvertError"
      "error (last (fst (onDropped files ffmpeg e st))) = ''Failed to convert video''"
      "error (last (fst (onDropped files ffmpeg e st))) \<noteq> ''''"
      "downloads (last (fst (onDropped files ffmpeg e st))) = downloads st"
      unfolding l by simp_all
  next
    assume h: "arrayBuffer file = Some videoData"
      "writeFile ffmpeg ''input.webm'' videoData e = Some e1"
      "exec ffmpeg [''-i'', ''input.webm'', ''output.'' @ selectedOutputFormat st] e1
                 = Some (events, result, e2)"
      and z: "result = 0" and rd: "readFile ffmpeg ''output.mp4'' e2 = Some data"
    from convertVideo_zero[OF h(1,2) h(3)[unfolded z] rd] obtain p where
      "convertVideo file ffmpeg e st
           = ([st\<lparr>status := ConvertStart, error := ''''\<rparr>]
                @ handleEvents events (st\<lparr>status := ConvertStart, error := ''''\<rparr>)
                @ [st\<lparr>status := ConvertDone, error := '''', progress := p\<rparr>],
              Inr (Some data), e2)" by blast
    then have l: "last (fst (onDropped files ffmpeg e st))
        = download data (st\<lparr>status := ConvertDone, error := '''', progress := p\<rparr>)"
      unfolding onDropped_accepted[OF assms] by simp
    show "status (last (fst (onDropped files ffmpeg e st))) = ConvertDone"
      "error (last (fst (onDropped files ffmpeg e st))) = ''''"
      "blobParts (last (downloads (last (fst (onDropped files ffmpeg e st))))) = data"
      unfolding l by (simp_all add: download_def)
  qed
  from entry run show ?thesis by (intro conjI) simp_all
qed

text \<open>
  C4 for a drop on the page left by a failed job, with an engine that exits with 0, and for a
  drop on the page left by a finished job, with an engine that exits with 1.
\<close>

theorem onDropped_conversion_outcome_witness:
  "status failedPage = ConvertError \<and> error failedPage = ''Failed to convert video''
   \<and> error (hd (fst (onDropped [clipMp4] (exitEngine 0) () failedPage))) = ''''
   \<and> status (last (fst (onDropped [clipMp4] (exitEngine 0) () failedPage))) = ConvertDone
   \<and> status (last (fst (onDropped [clipMp4] (exitEngine 1) () afterFirstJob))) = ConvertError
   \<and> error (last (fst (onDropped [clipMp4] (exitEngine 1) () afterFirstJob))) \<noteq> ''''"
proof -
  have f: "fileFormat clipMp4 \<noteq> ''''" by (simp add: clipMp4_fileFormat)
  have s1: "isFileFormatSupported failedPage clipMp4 \<noteq> None"
    by (rule clipMp4_supported) (simp add: failedPage_eq)
  have s2: "isFileFormatSupported afterFirstJob clipMp4 \<noteq> None"
    by (rule clipMp4_supported) (simp add: afterFirstJob_eq)
  have a: "arrayBuffer clipMp4 = Some [7, 8, 9]" by (simp add: clipMp4_def)
  have w: "writeFile (exitEngine c) ''input.webm'' [7, 8, 9] () = Some ()" for c
    by (simp add: exitEngine_def)
  have x: "exec (exitEngine c) [''-i'', ''input.webm'', ''output.'' @ selectedOutputFormat st] ()
             = Some ([ProgressEvent (Finite False 1 0)], c, ())" for c st
    by (simp add: exitEngine_def)
  have r: "readFile (exitEngine 0) ''output.mp4'' () = Some [1, 2, 3]" by (simp add: exitEngine_def)
  note ok = onDropped_conversion_outcome[OF refl f s1, where ffmpeg = "exitEngine 0" and e = "()"
      and videoData = "[7, 8, 9]" and ?e1.0 = "()" and events = "[ProgressEvent (Finite False 1 0)]"
      and result = 0 and ?e2.0 = "()" and data = "[1, 2, 3]"]
  note ko = onDropped_conversion_outcome[OF refl f s2, where ffmpeg = "exitEngine 1" and e = "()"
      and videoData = "[7, 8, 9]" and ?e1.0 = "()" and events = "[ProgressEvent (Finite False 1 0)]"
      and result = 1 and ?e2.0 = "()" and data = "[1, 2, 3]"]
  have p: "status failedPage = ConvertError \<and> error failedPage = ''Failed to convert video''"
    by (simp add: failedPage_eq)
  from ok[THEN conjunct1] ok[THEN conjunct2, THEN conjunct1]
    ok[THEN conjunct2, THEN conjunct2, THEN mp, OF conjI[OF a conjI[OF w x]], THEN conjunct2,
       THEN mp, OF conjI[OF refl r]]
  have "error (hd (fst (onDropped [clipMp4] (exitEngine 0) () failedPage))) = ''''
   \<and> status (last (fst (onDropped [clipMp4] (exitEngine 0) () failedPage))) = ConvertDone"
    by simp
  moreover from ko[THEN conjunct2, THEN conjunct2, THEN mp, OF conjI[OF a conjI[OF w x]],
      THEN conjunct1]
  have "status (last (fst (onDropped [clipMp4] (exitEngine 1) () afterFirstJob))) = ConvertError
   \<and> error (last (fst (onDropped [clipMp4] (exitEngine 1) () afterFirstJob))) \<noteq> ''''"
    by simp
  ultimately show ?thesis using p by simp
qed




section \<open>Output file and download\<close>

text \<open>
  Claim C2 is not met by the code. The claim wants the file read back to be the one named in
  the arguments of \<open>exec\<close>. With \<open>webm\<close> selected, \<open>exec\<close> is given
  \<open>output.webm\<close> and the sample engine writes that file; the script then reads
  \<open>output.mp4\<close>, which does not exist: the read fails, \<open>convertVideo\<close> rejects and
  the page is left in \<open>ConvertStart\<close>.
\<close>

theorem convertVideo_reads_back_other_name:
  "(case convertVideo clipMp4 vfsEngine Map.empty (loadedPage\<lparr>selectedOutputFormat := ''webm''\<rparr>) of
      (states, r, fs) \<Rightarrow> (map status states, r, fs ''output.webm'', fs ''output.mp4''))
   = ([ConvertStart, ConvertStart, ConvertStart], Inl EngineFailure, Some [7, 8, 9], None)"
  by (simp add: clipMp4_def loadedPage_def convertVideo_def vfsEngine_def)

text \<open>
  Claim C9. Whenever the conversion of an accepted drop returns bytes, whatever the page
  state and so whatever output format is selected, the handler ends in \<open>ConvertDone\<close>
  and appends exactly one download, of those bytes, with MIME type \<open>video/mp4\<close> and
  name \<open>output.mp4\<close>.
\<close>

theorem download_fixed_name:
  assumes "files = [file]" "fileFormat file \<noteq> ''''" "isFileFormatSupported st file \<noteq> None"
    and "convertVideo file ffmpeg e st = (states, Inr (Some data), e')"
  shows "status (last (fst (onDropped files ffmpeg e st))) = ConvertDone
       \<and> downloads (last (fst (onDropped files ffmpeg e st)))
           = downloads st
               @ [\<lparr> blobParts = data, blobType = ''video/mp4'', downloadName = ''output.mp4'' \<rparr>]"
proof -
  from convertVideo_returns_data[OF assms(4)] obtain p where
    "last states = st\<lparr>status := ConvertDone, error := '''', progress := p\<rparr>" by blast
  then have "last (fst (onDropped files ffmpeg e st))
        = download data (st\<lparr>status := ConvertDone, error := '''', progress := p\<rparr>)"
    unfolding onDropped_accepted[OF assms(1-3)] assms(4) by simp
  then show ?thesis by (simp add: download_def)
qed

text \<open>C9 with \<open>webm\<close> selected: the download is still named \<open>output.mp4\<close>.\<close>

theorem download_fixed_name_witness:
  "selectedOutputFormat (loadedPage\<lparr>selectedOutputFormat := ''webm''\<rparr>) = ''webm''
   \<and> downloads (last (fst (onDropped [clipMp4] (exitEngine 0) ()
                               (loadedPage\<lparr>selectedOutputFormat := ''webm''\<rparr>))))
       = [\<lparr> blobParts = [1, 2, 3], blobType = ''video/mp4'', downloadName = ''output.mp4'' \<rparr>]"
proof -
  let ?st = "loadedPage\<lparr>selectedOutputFormat := ''webm''\<rparr>"
  have f: "fileFormat clipMp4 \<noteq> ''''" by (simp add: clipMp4_fileFormat)
  have s: "isFileFormatSupported ?st clipMp4 \<noteq> None"
    by (rule clipMp4_supported) simp
  have "\<exists>states. convertVideo clipMp4 (exitEngine 0) () ?st = (states, Inr (Some [1, 2, 3]), ())"
    by (simp add: convertVideo_def exitEngine_def clipMp4_def Let_def)
  then obtain states where
    c: "convertVideo clipMp4 (exitEngine 0) () ?st = (states, Inr (Some [1, 2, 3]), ())" by blast
  from download_fixed_name[OF refl f s c] show ?thesis by (simp add: loadedPage_def)
qed

end
